theory Spec2Isabelle
  imports Main "HOL-Library.Word"
begin

section \<open>Strings and numbers\<close>

text \<open>
  A JavaScript string is a sequence of UTF-16 code units; \<open>length\<close> and \<open>slice\<close> count
  code units. The model keeps that: a string is a list of 16-bit words, and \<open>lit\<close>
  embeds the ASCII literals of the source.
\<close>

type_synonym js_string = "16 word list"

definition lit :: "string \<Rightarrow> js_string" where
  "lit cs = map (\<lambda>c. of_nat (of_char c)) cs"

text \<open>
  \<open>String.prototype.slice(0, n)\<close> for a non-negative constant \<open>n\<close>: the first \<open>n\<close> code
  units, or the whole string when it is shorter.
\<close>

definition slice0 :: "nat \<Rightarrow> js_string \<Rightarrow> js_string" where
  "slice0 n s = take n s"

text \<open>
  Identifiers (\<open>id: number\<close>, written \<open>ident\<close> below) are natural numbers. A template
  literal \<open>${id}\<close> renders the number in decimal.
\<close>

fun number_toString :: "nat \<Rightarrow> js_string" where
  "number_toString n =
     (if n < 10 then [48 + of_nat n]
      else number_toString (n div 10) @ [48 + of_nat (n mod 10)])"

declare number_toString.simps [simp del]

section \<open>CardViewComponent.fitDescriptionText\<close>

definition MAX_CHARACTER_LENGTH :: nat where
  "MAX_CHARACTER_LENGTH = 72"

definition ELLIPSES :: js_string where
  "ELLIPSES = lit ''...''"

definition fitDescriptionText :: "js_string \<Rightarrow> js_string" where
  "fitDescriptionText description = slice0 MAX_CHARACTER_LENGTH description @ ELLIPSES"

section \<open>Values exchanged with the collaborators\<close>

text \<open>
  An error value: what a failed request delivers to the error callback, and the
  \<open>TypeError\<close> of reading a property of \<open>undefined\<close>.
\<close>

datatype js_error = TypeError | RemoteError js_string

text \<open>
  The members of \<open>STATUS\<close> that the components assign, and the fields of \<open>Issue\<close> that
  matter here. (\<open>core/models/issue.model\<close> is not among the sources modelled.)
\<close>

datatype STATUS = Incomplete | Done

record issue =
  issue_id :: nat
  status :: STATUS
  title :: js_string
  description :: js_string

record repo =
  owner :: js_string
  name :: js_string

text \<open>The one closure handed to a collaborator: \<open>() => this.githubEventService.reloadPage()\<close>.\<close>

datatype callback = Retry_reloadPage

text \<open>
  Every call of a collaborator's method, with its arguments, in the order made. The
  last two constructors are no collaborator calls. \<open>Pending_marked id\<close> records the
  assignment in \<open>deleteIssue\<close> that adds \<open>id\<close> to \<open>issuesPendingDeletion\<close>, at its place in
  the order of the calls, so that what was assigned before a call and what after can be
  told apart. \<open>Finalize_ran k\<close> records that the callback given to \<open>finalize\<close> by
  subscription number \<open>k\<close> ran, so that the number of its runs can be counted.
\<close>

datatype call =
    LoggingService_info js_string
  | IssueService_updateIssue issue
  | IssueService_updateLocalStore issue
  | IssueService_deleteIssue nat
  | IssueService_reset bool
  | ErrorHandlingService_handleError js_error "callback option"
  | Event_stopPropagation nat
  | DialogService_openUserConfirmationModal "js_string list" js_string js_string
  | GithubService_storePhaseDetails js_string js_string
  | GithubService_reset
  | GithubEventService_reloadPage
  | Router_navigateByUrl "js_string option"
  | AuthService_logOut
  | Pending_marked nat
  | Finalize_ran nat

text \<open>
  What an observable delivers to a subscriber: values (\<open>Next\<close>), then at most one of
  \<open>Error\<close> and \<open>Complete\<close>. The values are an \<open>Issue\<close> (update and delete requests), the
  result of a closed dialog (\<open>undefined\<close> is \<open>None\<close>) and the value of a finished reload.
\<close>

datatype emitted = Issue_value issue | Dialog_result "bool option" | Reload_value

datatype notification = Next emitted | Error js_error | Complete

fun terminal :: "notification \<Rightarrow> bool" where
  "terminal (Next v) = False"
| "terminal (Error e) = True"
| "terminal Complete = True"

text \<open>
  The part of the state both components see: \<open>phaseService.currentPhase\<close> (\<open>undefined\<close>
  is \<open>None\<close>) and the calls made so far.
\<close>

record component =
  currentPhase :: "js_string option"
  calls :: "call list"

definition call :: "call \<Rightarrow> 'a component_scheme \<Rightarrow> 'a component_scheme" where
  "call c s = s\<lparr>calls := calls s @ [c]\<rparr>"

section \<open>CardViewComponent\<close>

subsection \<open>State\<close>

text \<open>
  The subscribers the component creates, as data: which method subscribed, and the
  variables its callbacks close over (\<open>id\<close>, \<open>event\<close>).
\<close>

datatype card_subscriber =
    MarkAsResponded_subscriber
  | MarkAsPending_subscriber
  | DeleteIssue_subscriber nat
  | DeleteDialog_subscriber nat nat

text \<open>
  \<open>issuesPendingDeletion\<close> is the component's field (an object used as a map from
  identifiers to \<open>true\<close>); \<open>localStore\<close> is the store of \<open>IssueService\<close>, which the
  component writes only through \<open>updateLocalStore\<close> (what the service does to its own
  store while it serves a request is not modelled); \<open>card_subscriptions\<close> lists every
  subscription made, in order, with \<open>True\<close> while it is open. A request is in flight
  from \<open>subscribe\<close> until its subscription is closed. The observables subscribed to
  are requests to the remote tracker and the closing of a dialog: their notifications
  arrive after the subscribing method has returned.
\<close>

record card_view = component +
  issuesPendingDeletion :: "nat \<rightharpoonup> bool"
  localStore :: "nat \<rightharpoonup> issue"
  card_subscriptions :: "(card_subscriber \<times> bool) list"

definition card_subscribe :: "card_subscriber \<Rightarrow> card_view \<Rightarrow> card_view" where
  "card_subscribe sub s = s\<lparr>card_subscriptions := card_subscriptions s @ [(sub, True)]\<rparr>"

definition card_close :: "nat \<Rightarrow> card_view \<Rightarrow> card_view" where
  "card_close k s =
     s\<lparr>card_subscriptions :=
         (card_subscriptions s)[k := (fst (card_subscriptions s ! k), False)]\<rparr>"

text \<open>
  Modelled from the spec: \<open>IssueService.updateLocalStore\<close> (\<open>core/services/issue.service\<close>
  is not among the sources modelled) is the Local Store's \<open>upsert\<close>, which "overwrites an
  existing record with the same identifier entirely".
\<close>

definition updateLocalStore :: "issue \<Rightarrow> card_view \<Rightarrow> card_view" where
  "updateLocalStore i s =
     call (IssueService_updateLocalStore i) (s\<lparr>localStore := (localStore s)(issue_id i \<mapsto> i)\<rparr>)"

subsection \<open>markAsResponded and markAsPending\<close>

text \<open>
  \<open>Issue.clone\<close> is not among the sources modelled and is a parameter: \<open>clone issue phase\<close>
  is the new object it returns. The assignment to \<open>newIssue.status\<close> changes that object
  only.
\<close>

type_synonym clone = "issue \<Rightarrow> js_string option \<Rightarrow> issue"

definition markAsResponded :: "clone \<Rightarrow> issue \<Rightarrow> nat \<Rightarrow> card_view \<Rightarrow> card_view" where
  "markAsResponded clone issue event s =
     (let s1 = call (LoggingService_info
                 (lit ''IssueTablesComponent: Marking Issue '' @ number_toString (issue_id issue)
                    @ lit '' as Responded'')) s;
          newIssue = clone issue (currentPhase s1);
          newIssue = newIssue\<lparr>status := Done\<rparr>;
          s2 = call (IssueService_updateIssue newIssue) s1;
          s3 = card_subscribe MarkAsResponded_subscriber s2
      in call (Event_stopPropagation event) s3)"

definition markAsResponded_next :: "issue \<Rightarrow> card_view \<Rightarrow> card_view" where
  "markAsResponded_next updatedIssue s = updateLocalStore updatedIssue s"

definition markAsResponded_error :: "js_error \<Rightarrow> card_view \<Rightarrow> card_view" where
  "markAsResponded_error error s = call (ErrorHandlingService_handleError error None) s"

definition markAsPending :: "clone \<Rightarrow> issue \<Rightarrow> nat \<Rightarrow> card_view \<Rightarrow> card_view" where
  "markAsPending clone issue event s =
     (let s1 = call (LoggingService_info
                 (lit ''IssueTablesComponent: Marking Issue '' @ number_toString (issue_id issue)
                    @ lit '' as Pending'')) s;
          newIssue = clone issue (currentPhase s1);
          newIssue = newIssue\<lparr>status := Incomplete\<rparr>;
          s2 = call (IssueService_updateIssue newIssue) s1;
          s3 = card_subscribe MarkAsPending_subscriber s2
      in call (Event_stopPropagation event) s3)"

definition markAsPending_next :: "issue \<Rightarrow> card_view \<Rightarrow> card_view" where
  "markAsPending_next updatedIssue s = updateLocalStore updatedIssue s"

definition markAsPending_error :: "js_error \<Rightarrow> card_view \<Rightarrow> card_view" where
  "markAsPending_error error s = call (ErrorHandlingService_handleError error None) s"

subsection \<open>deleteIssue\<close>

text \<open>
  The object spread \<open>{...this.issuesPendingDeletion, [id]: true}\<close> is the map with \<open>id\<close>
  set; the rest pattern \<open>{[id]: issueRemoved, ...theRest}\<close> is the map without \<open>id\<close>.
\<close>

definition deleteIssue :: "nat \<Rightarrow> nat \<Rightarrow> card_view \<Rightarrow> card_view" where
  "deleteIssue ident event s =
     (let s1 = call (LoggingService_info
                 (lit ''IssueTablesComponent: Deleting Issue '' @ number_toString ident)) s;
          s2 = call (Pending_marked ident)
                 (s1\<lparr>issuesPendingDeletion := (issuesPendingDeletion s1)(ident \<mapsto> True)\<rparr>);
          s3 = call (IssueService_deleteIssue ident) s2;
          s4 = card_subscribe (DeleteIssue_subscriber ident) s3
      in call (Event_stopPropagation event) s4)"

definition deleteIssue_finalize :: "nat \<Rightarrow> card_view \<Rightarrow> card_view" where
  "deleteIssue_finalize ident s =
     (let theRest = (issuesPendingDeletion s)(ident := None)
      in s\<lparr>issuesPendingDeletion := theRest\<rparr>)"

definition deleteIssue_next :: "issue \<Rightarrow> card_view \<Rightarrow> card_view" where
  "deleteIssue_next removedIssue s = s"

definition deleteIssue_error :: "js_error \<Rightarrow> card_view \<Rightarrow> card_view" where
  "deleteIssue_error error s = call (ErrorHandlingService_handleError error None) s"

subsection \<open>openDeleteDialog\<close>

definition deleteIssueModalMessages :: "js_string list" where
  "deleteIssueModalMessages =
     [lit ''Do you wish to delete this issue?'', lit ''This action is irreversible!'']"

definition yesButtonModalMessage :: js_string where
  "yesButtonModalMessage = lit ''Yes, I wish to delete this issue''"

definition noButtonModalMessage :: js_string where
  "noButtonModalMessage = lit ''No, I don't wish to delete this issue''"

definition openDeleteDialog :: "nat \<Rightarrow> nat \<Rightarrow> card_view \<Rightarrow> card_view" where
  "openDeleteDialog ident event s =
     card_subscribe (DeleteDialog_subscriber ident event)
       (call (DialogService_openUserConfirmationModal
                deleteIssueModalMessages yesButtonModalMessage noButtonModalMessage) s)"

text \<open>\<open>if (res)\<close>: of the results a dialog gives, only \<open>true\<close> is truthy.\<close>

definition openDeleteDialog_afterClosed :: "nat \<Rightarrow> nat \<Rightarrow> bool option \<Rightarrow> card_view \<Rightarrow> card_view" where
  "openDeleteDialog_afterClosed ident event res s =
     (if res = Some True
      then deleteIssue ident event
             (call (LoggingService_info (lit ''Deleting issue '' @ number_toString ident)) s)
      else s)"

subsection \<open>Delivery of notifications\<close>

text \<open>
  The callbacks of each subscriber. A value of another type than the observable's
  cannot arrive and changes nothing. The dialog subscribers pass no error callback.
\<close>

fun card_next :: "card_subscriber \<Rightarrow> emitted \<Rightarrow> card_view \<Rightarrow> card_view" where
  "card_next MarkAsResponded_subscriber (Issue_value updatedIssue) s =
     markAsResponded_next updatedIssue s"
| "card_next MarkAsPending_subscriber (Issue_value updatedIssue) s =
     markAsPending_next updatedIssue s"
| "card_next (DeleteIssue_subscriber ident) (Issue_value removedIssue) s =
     deleteIssue_next removedIssue s"
| "card_next (DeleteDialog_subscriber ident event) (Dialog_result res) s =
     openDeleteDialog_afterClosed ident event res s"
| "card_next sub v s = s"

fun card_error :: "card_subscriber \<Rightarrow> js_error \<Rightarrow> card_view \<Rightarrow> card_view" where
  "card_error MarkAsResponded_subscriber e s = markAsResponded_error e s"
| "card_error MarkAsPending_subscriber e s = markAsPending_error e s"
| "card_error (DeleteIssue_subscriber ident) e s = deleteIssue_error e s"
| "card_error (DeleteDialog_subscriber ident event) e s = s"

text \<open>
  What runs when subscription \<open>k\<close> is torn down: the callback given to \<open>finalize\<close>, for
  the one pipeline that has it.
\<close>

fun card_teardown :: "nat \<Rightarrow> card_subscriber \<Rightarrow> card_view \<Rightarrow> card_view" where
  "card_teardown k (DeleteIssue_subscriber ident) s = deleteIssue_finalize ident (call (Finalize_ran k) s)"
| "card_teardown k sub s = s"

text \<open>
  One notification for subscription \<open>k\<close>. A closed subscription (and a number that
  names none) receives nothing. \<open>Next\<close> runs the value callback; \<open>Error\<close> runs the error
  callback, closes the subscription and tears it down; \<open>Complete\<close> closes it and tears
  it down.
\<close>

definition card_deliver :: "nat \<Rightarrow> notification \<Rightarrow> card_view \<Rightarrow> card_view" where
  "card_deliver k n s =
     (if k < length (card_subscriptions s) \<and> snd (card_subscriptions s ! k) then
        (let sub = fst (card_subscriptions s ! k) in
         case n of
           Next v \<Rightarrow> card_next sub v s
         | Error e \<Rightarrow> card_teardown k sub (card_close k (card_error sub e s))
         | Complete \<Rightarrow> card_teardown k sub (card_close k s))
      else s)"

text \<open>
  What can happen to the component, one at a time (the program is single-threaded):
  the template calls a method, or a notification arrives.
\<close>

datatype card_input =
    Call_markAsResponded issue nat
  | Call_markAsPending issue nat
  | Call_deleteIssue nat nat
  | Call_openDeleteDialog nat nat
  | Notify nat notification

fun card_step :: "clone \<Rightarrow> card_input \<Rightarrow> card_view \<Rightarrow> card_view" where
  "card_step clone (Call_markAsResponded issue event) s = markAsResponded clone issue event s"
| "card_step clone (Call_markAsPending issue event) s = markAsPending clone issue event s"
| "card_step clone (Call_deleteIssue ident event) s = deleteIssue ident event s"
| "card_step clone (Call_openDeleteDialog ident event) s = openDeleteDialog ident event s"
| "card_step clone (Notify k n) s = card_deliver k n s"

definition card_run :: "clone \<Rightarrow> card_input list \<Rightarrow> card_view \<Rightarrow> card_view" where
  "card_run clone ins s = foldl (\<lambda>s i. card_step clone i s) s ins"

text \<open>Whether the inputs hold a terminal notification for subscription \<open>k\<close>.\<close>

fun resolves :: "nat \<Rightarrow> card_input \<Rightarrow> bool" where
  "resolves k (Notify j n) = (j = k \<and> terminal n)"
| "resolves k i = False"

text \<open>The two status methods by the status they set.\<close>

definition markAs :: "STATUS \<Rightarrow> clone \<Rightarrow> issue \<Rightarrow> nat \<Rightarrow> card_view \<Rightarrow> card_view" where
  "markAs st = (case st of Done \<Rightarrow> markAsResponded | Incomplete \<Rightarrow> markAsPending)"

text \<open>\<open>ngOnInit\<close>: no identifier is pending; nothing has been called or subscribed.\<close>

definition card_init :: "js_string option \<Rightarrow> (nat \<rightharpoonup> issue) \<Rightarrow> card_view" where
  "card_init phase store =
     \<lparr>currentPhase = phase, calls = [], issuesPendingDeletion = Map.empty,
      localStore = store, card_subscriptions = []\<rparr>"

section \<open>HeaderComponent\<close>

subsection \<open>State\<close>

datatype header_subscriber = Reload_subscriber | LogOutDialog_subscriber

text \<open>The one callback given to \<open>setTimeout\<close>: \<open>() => { this.isReloadButtonDisabled = false; }\<close>.\<close>

datatype timeout = Enable_reload_button

text \<open>
  \<open>clock\<close> is the time in milliseconds; \<open>timeouts\<close> holds the callbacks scheduled with
  \<open>setTimeout\<close> that have not run, each with the time it is due; \<open>loginId\<close> is
  \<open>userService.currentUser.loginId\<close>.
\<close>

record header = component +
  isReloadButtonDisabled :: bool
  loginId :: js_string
  clock :: nat
  timeouts :: "(nat \<times> timeout) list"
  header_subscriptions :: "(header_subscriber \<times> bool) list"

definition header_subscribe :: "header_subscriber \<Rightarrow> header \<Rightarrow> header" where
  "header_subscribe sub s = s\<lparr>header_subscriptions := header_subscriptions s @ [(sub, True)]\<rparr>"

definition header_close :: "nat \<Rightarrow> header \<Rightarrow> header" where
  "header_close k s =
     s\<lparr>header_subscriptions :=
         (header_subscriptions s)[k := (fst (header_subscriptions s ! k), False)]\<rparr>"

definition setTimeout :: "timeout \<Rightarrow> nat \<Rightarrow> header \<Rightarrow> header" where
  "setTimeout cb delay s = s\<lparr>timeouts := timeouts s @ [(clock s + delay, cb)]\<rparr>"

subsection \<open>reload\<close>

definition reload :: "header \<Rightarrow> header" where
  "reload s =
     (let s1 = s\<lparr>isReloadButtonDisabled := True\<rparr>;
          s2 = call GithubEventService_reloadPage s1;
          s3 = header_subscribe Reload_subscriber s2
      in setTimeout Enable_reload_button 3000 s3)"

definition reload_next :: "header \<Rightarrow> header" where
  "reload_next s = s"

definition reload_error :: "js_error \<Rightarrow> header \<Rightarrow> header" where
  "reload_error error s =
     call (ErrorHandlingService_handleError error (Some Retry_reloadPage)) s"

text \<open>
  The body of the retry closure: one call of \<open>reloadPage\<close>. The closure does not
  subscribe to what the call returns, sets no flag and schedules nothing.
\<close>

fun run_callback :: "callback \<Rightarrow> header \<Rightarrow> header" where
  "run_callback Retry_reloadPage s = call GithubEventService_reloadPage s"

fun run_timeout :: "timeout \<Rightarrow> header \<Rightarrow> header" where
  "run_timeout Enable_reload_button s = s\<lparr>isReloadButtonDisabled := False\<rparr>"

subsection \<open>routeToSelectedPhase\<close>

text \<open>
  The enum \<open>Phase\<close> and \<open>PhaseService.getRepository\<close> are not among the sources modelled
  and are parameters: \<open>Phase openPhase\<close> is the member \<open>Phase[openPhase]\<close> (\<open>None\<close> for
  \<open>undefined\<close>), and \<open>getRepository phase\<close> is the array the getter returns while
  \<open>phase\<close> is the current phase. Reading \<open>[0].owner\<close> of an empty array throws a
  \<open>TypeError\<close>, which ends the method there; the first component of the result is the
  error thrown, if any.
\<close>

definition routeToSelectedPhase ::
  "(js_string \<Rightarrow> js_string option) \<Rightarrow> (js_string option \<Rightarrow> repo list) \<Rightarrow> js_string
     \<Rightarrow> header \<Rightarrow> js_error option \<times> header" where
  "routeToSelectedPhase Phase getRepository openPhase s =
     (if currentPhase s = Phase openPhase then (None, s)
      else
        (let s1 = s\<lparr>currentPhase := Phase openPhase\<rparr> in
         case getRepository (currentPhase s1) of
           [] \<Rightarrow> (Some TypeError, s1)
         | r # rs \<Rightarrow>
             (let s2 = call (GithubService_storePhaseDetails (owner r) (name r)) s1;
                  s3 = call GithubService_reset s2;
                  s4 = call (IssueService_reset False) s3;
                  s5 = reload s4
              in (None, call (Router_navigateByUrl (currentPhase s5)) s5))))"

subsection \<open>logOut and openLogOutDialog\<close>

definition logOut :: "header \<Rightarrow> header" where
  "logOut s = call AuthService_logOut s"

definition logOutDialogMessages :: "js_string list" where
  "logOutDialogMessages = [lit ''Do you wish to log out?'']"

definition yesButtonDialogMessage :: js_string where
  "yesButtonDialogMessage = lit ''Yes, I wish to log out''"

definition noButtonDialogMessage :: js_string where
  "noButtonDialogMessage = lit ''No, I don't wish to log out''"

definition openLogOutDialog :: "header \<Rightarrow> header" where
  "openLogOutDialog s =
     header_subscribe LogOutDialog_subscriber
       (call (DialogService_openUserConfirmationModal
                logOutDialogMessages yesButtonDialogMessage noButtonDialogMessage) s)"

definition openLogOutDialog_afterClosed :: "bool option \<Rightarrow> header \<Rightarrow> header" where
  "openLogOutDialog_afterClosed res s =
     (if res = Some True
      then logOut (call (LoggingService_info (lit ''Logging out from '' @ loginId s)) s)
      else s)"

subsection \<open>Delivery of notifications, timers\<close>

fun header_next :: "header_subscriber \<Rightarrow> emitted \<Rightarrow> header \<Rightarrow> header" where
  "header_next Reload_subscriber v s = reload_next s"
| "header_next LogOutDialog_subscriber (Dialog_result res) s = openLogOutDialog_afterClosed res s"
| "header_next sub v s = s"

fun header_error :: "header_subscriber \<Rightarrow> js_error \<Rightarrow> header \<Rightarrow> header" where
  "header_error Reload_subscriber e s = reload_error e s"
| "header_error LogOutDialog_subscriber e s = s"

definition header_deliver :: "nat \<Rightarrow> notification \<Rightarrow> header \<Rightarrow> header" where
  "header_deliver k n s =
     (if k < length (header_subscriptions s) \<and> snd (header_subscriptions s ! k) then
        (let sub = fst (header_subscriptions s ! k) in
         case n of
           Next v \<Rightarrow> header_next sub v s
         | Error e \<Rightarrow> header_close k (header_error sub e s)
         | Complete \<Rightarrow> header_close k s)
      else s)"

text \<open>
  \<open>advance d\<close>: \<open>d\<close> milliseconds pass. The callbacks due by then run, the earliest
  first and those due together in the order scheduled; the others stay.
\<close>

definition advance :: "nat \<Rightarrow> header \<Rightarrow> header" where
  "advance d s =
     (let t = clock s + d;
          due = filter (\<lambda>p. fst p \<le> t) (timeouts s);
          later = filter (\<lambda>p. \<not> fst p \<le> t) (timeouts s)
      in foldl (\<lambda>s p. run_timeout (snd p) s) (s\<lparr>clock := t, timeouts := later\<rparr>)
           (sort_key fst due))"

text \<open>
  What can happen to the header, one at a time: a method is called, a notification
  arrives, the error-handling service runs the retry closure it was given, or time
  passes. An error thrown by a method ends that method only.
\<close>

datatype header_input =
    Call_reload
  | Call_routeToSelectedPhase js_string
  | Call_openLogOutDialog
  | Header_notify nat notification
  | Run_callback callback
  | Advance nat

fun header_step ::
  "(js_string \<Rightarrow> js_string option) \<Rightarrow> (js_string option \<Rightarrow> repo list) \<Rightarrow> header_input
     \<Rightarrow> header \<Rightarrow> header" where
  "header_step Phase getRepository Call_reload s = reload s"
| "header_step Phase getRepository (Call_routeToSelectedPhase openPhase) s =
     snd (routeToSelectedPhase Phase getRepository openPhase s)"
| "header_step Phase getRepository Call_openLogOutDialog s = openLogOutDialog s"
| "header_step Phase getRepository (Header_notify k n) s = header_deliver k n s"
| "header_step Phase getRepository (Run_callback cb) s = run_callback cb s"
| "header_step Phase getRepository (Advance d) s = advance d s"

definition header_run ::
  "(js_string \<Rightarrow> js_string option) \<Rightarrow> (js_string option \<Rightarrow> repo list) \<Rightarrow> header_input list
     \<Rightarrow> header \<Rightarrow> header" where
  "header_run Phase getRepository ins s = foldl (\<lambda>s i. header_step Phase getRepository i s) s ins"

text \<open>Whether an input is a terminal notification for subscription \<open>k\<close> of the header.\<close>

fun header_resolves :: "nat \<Rightarrow> header_input \<Rightarrow> bool" where
  "header_resolves k (Header_notify j n) = (j = k \<and> terminal n)"
| "header_resolves k i = False"

text \<open>
  The cool-down that ends at time \<open>T\<close>: the button is disabled, no pending callback is
  due before \<open>T\<close>, and \<open>T\<close> is at most 3000 ms away.
\<close>

definition cooling :: "nat \<Rightarrow> header \<Rightarrow> bool" where
  "cooling T s =
     (isReloadButtonDisabled s \<and> list_all (\<lambda>p. T \<le> fst p) (timeouts s) \<and> T \<le> clock s + 3000)"

text \<open>The header as constructed: the button enabled, nothing scheduled or subscribed.\<close>

definition header_init :: "js_string option \<Rightarrow> js_string \<Rightarrow> header" where
  "header_init phase login =
     \<lparr>currentPhase = phase, calls = [], isReloadButtonDisabled = False, loginId = login,
      clock = 0, timeouts = [], header_subscriptions = []\<rparr>"

text \<open>An issue to run the examples on.\<close>

definition sample :: issue where
  "sample = \<lparr>issue_id = 1, status = Incomplete, title = lit ''Crash'', description = lit ''It crashes''\<rparr>"

section \<open>The header beside a card view\<close>





section \<open>Properties\<close>

lemma length_ELLIPSES: "length ELLIPSES = 3"
  by (simp add: ELLIPSES_def lit_def)

lemma fitDescriptionText_take: "fitDescriptionText s = take 72 s @ ELLIPSES"
  by (simp add: fitDescriptionText_def slice0_def MAX_CHARACTER_LENGTH_def)

subsection \<open>fitDescriptionText\<close>

lemma fitDescriptionText_fixed_iff:
  "(fitDescriptionText s = s) = (length s = 75 \<and> drop 72 s = ELLIPSES)"
proof
  assume "fitDescriptionText s = s"
  then have e: "take 72 s @ ELLIPSES = s"
    by (simp add: fitDescriptionText_take)
  then have "length (take 72 s @ ELLIPSES) = length s"
    by simp
  then have l: "length s = 75"
    by (simp add: length_ELLIPSES min_def split: if_splits)
  have "take 72 s @ ELLIPSES = take 72 s @ drop 72 s"
    by (simp only: e append_take_drop_id)
  then have "ELLIPSES = drop 72 s"
    by (simp only: same_append_eq)
  with l show "length s = 75 \<and> drop 72 s = ELLIPSES"
    by simp
next
  assume "length s = 75 \<and> drop 72 s = ELLIPSES"
  then have "take 72 s @ ELLIPSES = take 72 s @ drop 72 s"
    by simp
  then show "fitDescriptionText s = s"
    by (simp only: fitDescriptionText_take append_take_drop_id)
qed

text \<open>
  C10, as the code has it: for every description, \<open>fitDescriptionText\<close> returns its first
  72 code units followed by \<open>...\<close>, whatever its length, so the result has
  \<open>min 72 (length s) + 3\<close> code units; a description of at most 72 code units (the empty
  one too) comes back with \<open>...\<close> appended and so differs from the input. The result
  equals the input exactly when the input has 75 code units and ends in \<open>...\<close>.
\<close>

theorem fitDescriptionText_appends_ellipses:
  "fitDescriptionText s = take 72 s @ lit ''...''
   \<and> length (fitDescriptionText s) = min 72 (length s) + 3
   \<and> (fitDescriptionText s = s) = (length s = 75 \<and> drop 72 s = lit ''...'')"
  using fitDescriptionText_fixed_iff [of s]
  by (simp add: fitDescriptionText_take length_ELLIPSES) (simp add: ELLIPSES_def min_def)

text \<open>
  C10 as stated fails in its last clause: the description made of 72 times \<open>a\<close> and then
  \<open>...\<close> is not empty, and \<open>fitDescriptionText\<close> returns it unchanged.
\<close>

theorem fitDescriptionText_returns_input_unchanged:
  "\<not> (\<forall>s. s \<noteq> [] \<longrightarrow> fitDescriptionText s \<noteq> s)"
proof
  assume a: "\<forall>s. s \<noteq> [] \<longrightarrow> fitDescriptionText s \<noteq> s"
  have "fitDescriptionText (replicate 72 97 @ lit ''...'') = replicate 72 97 @ lit ''...''"
    by (simp add: fitDescriptionText_take ELLIPSES_def)
  moreover have "replicate 72 (97 :: 16 word) @ lit ''...'' \<noteq> []"
    by simp
  ultimately show False
    using a by blast
qed

subsection \<open>CardViewComponent: subscriptions and the pending set\<close>


text \<open>The definitions of the component's methods and callbacks, to unfold together.\<close>

lemmas card_method_defs =
  markAsResponded_def markAsPending_def deleteIssue_def openDeleteDialog_def
  markAsResponded_next_def markAsPending_next_def deleteIssue_next_def
  markAsResponded_error_def markAsPending_error_def deleteIssue_error_def
  deleteIssue_finalize_def openDeleteDialog_afterClosed_def updateLocalStore_def
  card_subscribe_def card_close_def call_def Let_def

lemma card_next_subscription:
  "k < length (card_subscriptions s) \<Longrightarrow>
     k < length (card_subscriptions (card_next sub v s)) \<and>
     card_subscriptions (card_next sub v s) ! k = card_subscriptions s ! k"
  by (cases sub; cases v) (simp_all add: card_method_defs nth_append)

lemma card_error_subscriptions:
  "card_subscriptions (card_error sub e s) = card_subscriptions s"
  by (cases sub) (simp_all add: card_method_defs)

lemma card_teardown_subscriptions:
  "card_subscriptions (card_teardown k sub s) = card_subscriptions s"
  by (cases sub) (simp_all add: card_method_defs)

lemma card_close_subscriptions:
  "card_subscriptions (card_close k s) =
     (card_subscriptions s)[k := (fst (card_subscriptions s ! k), False)]"
  by (simp add: card_close_def)

lemma card_deliver_subscription:
  assumes "k < length (card_subscriptions s)"
  shows "k < length (card_subscriptions (card_deliver j n s)) \<and>
         card_subscriptions (card_deliver j n s) ! k =
           (fst (card_subscriptions s ! k),
            snd (card_subscriptions s ! k) \<and> \<not> (j = k \<and> terminal n))"
proof (cases "j < length (card_subscriptions s) \<and> snd (card_subscriptions s ! j)")
  case False
  with assms show ?thesis
    by (auto simp: card_deliver_def prod_eq_iff)
next
  case True
  show ?thesis
  proof (cases n)
    case (Next v)
    with True assms show ?thesis
      by (auto simp: card_deliver_def card_next_subscription Let_def prod_eq_iff)
  next
    case (Error e)
    with True assms show ?thesis
      by (auto simp: card_deliver_def card_teardown_subscriptions card_close_subscriptions
          card_error_subscriptions nth_list_update Let_def prod_eq_iff)
  next
    case Complete
    with True assms show ?thesis
      by (auto simp: card_deliver_def card_teardown_subscriptions card_close_subscriptions
          nth_list_update Let_def prod_eq_iff)
  qed
qed

lemma card_step_subscription:
  assumes "k < length (card_subscriptions s)"
  shows "k < length (card_subscriptions (card_step clone i s)) \<and>
         card_subscriptions (card_step clone i s) ! k =
           (fst (card_subscriptions s ! k), snd (card_subscriptions s ! k) \<and> \<not> resolves k i)"
proof (cases i)
  case (Notify j n)
  with card_deliver_subscription [OF assms, of j n] show ?thesis
    by simp
qed (use assms in \<open>simp_all add: card_method_defs nth_append prod_eq_iff\<close>)


lemma card_next_finalize_count:
  "count_list (calls (card_next sub v s)) (Finalize_ran k) = count_list (calls s) (Finalize_ran k)"
  by (cases sub; cases v) (simp_all add: card_method_defs)

lemma card_error_finalize_count:
  "count_list (calls (card_error sub e s)) (Finalize_ran k) = count_list (calls s) (Finalize_ran k)"
  by (cases sub) (simp_all add: card_method_defs)

lemma card_close_calls: "calls (card_close j s) = calls s"
  by (simp add: card_close_def)

lemma card_teardown_finalize_count:
  "count_list (calls (card_teardown j (DeleteIssue_subscriber ident) s)) (Finalize_ran k) =
     count_list (calls s) (Finalize_ran k) + (if j = k then 1 else 0)"
  by (simp add: card_method_defs)

lemma card_teardown_other_count:
  "j \<noteq> k \<Longrightarrow>
   count_list (calls (card_teardown j sub s)) (Finalize_ran k) = count_list (calls s) (Finalize_ran k)"
  by (cases sub) (simp_all add: card_method_defs)

lemma card_deliver_finalize_count:
  assumes "k < length (card_subscriptions s)"
    and "fst (card_subscriptions s ! k) = DeleteIssue_subscriber ident"
  shows "count_list (calls (card_deliver j n s)) (Finalize_ran k) =
           count_list (calls s) (Finalize_ran k) +
           (if snd (card_subscriptions s ! k) \<and> j = k \<and> terminal n then 1 else 0)"
proof (cases "j = k")
  case True
  with assms show ?thesis
    by (cases n)
      (simp_all add: card_deliver_def card_next_finalize_count card_method_defs)
next
  case False
  then show ?thesis
    by (cases n)
      (simp_all add: card_deliver_def Let_def card_next_finalize_count
        card_teardown_other_count card_close_calls card_error_finalize_count)
qed

lemma card_step_finalize_count:
  assumes "k < length (card_subscriptions s)"
    and "fst (card_subscriptions s ! k) = DeleteIssue_subscriber ident"
  shows "count_list (calls (card_step clone i s)) (Finalize_ran k) =
           count_list (calls s) (Finalize_ran k) +
           (if snd (card_subscriptions s ! k) \<and> resolves k i then 1 else 0)"
proof (cases i)
  case (Notify j n)
  with card_deliver_finalize_count [OF assms, of j n] show ?thesis
    by simp
qed (simp_all add: card_method_defs)

lemma card_run_Nil: "card_run clone [] s = s"
  by (simp add: card_run_def)

lemma card_run_Cons: "card_run clone (i # ins) s = card_run clone ins (card_step clone i s)"
  by (simp add: card_run_def)

lemma card_run_append: "card_run clone (xs @ ys) s = card_run clone ys (card_run clone xs s)"
  by (simp add: card_run_def)

lemma card_run_subscription:
  "k < length (card_subscriptions s) \<Longrightarrow>
     k < length (card_subscriptions (card_run clone ins s)) \<and>
     fst (card_subscriptions (card_run clone ins s) ! k) = fst (card_subscriptions s ! k) \<and>
     snd (card_subscriptions (card_run clone ins s) ! k) =
       (snd (card_subscriptions s ! k) \<and> \<not> list_ex (resolves k) ins)"
proof (induction ins arbitrary: s)
  case Nil
  then show ?case by (simp add: card_run_Nil)
next
  case (Cons i ins)
  from card_step_subscription [OF Cons.prems, of clone i]
  have 1: "k < length (card_subscriptions (card_step clone i s))"
    and 2: "card_subscriptions (card_step clone i s) ! k =
           (fst (card_subscriptions s ! k), snd (card_subscriptions s ! k) \<and> \<not> resolves k i)"
    by simp_all
  from Cons.IH [OF 1] 2 show ?case
    by (auto simp: card_run_Cons)
qed

lemma card_run_finalize_count:
  "k < length (card_subscriptions s) \<Longrightarrow>
   fst (card_subscriptions s ! k) = DeleteIssue_subscriber ident \<Longrightarrow>
   count_list (calls (card_run clone ins s)) (Finalize_ran k) =
     count_list (calls s) (Finalize_ran k) +
     (if snd (card_subscriptions s ! k) \<and> list_ex (resolves k) ins then 1 else 0)"
proof (induction ins arbitrary: s)
  case Nil
  then show ?case by (simp add: card_run_Nil)
next
  case (Cons i ins)
  from card_step_subscription [OF Cons.prems(1), of clone i]
  have 1: "k < length (card_subscriptions (card_step clone i s))"
    and 2: "card_subscriptions (card_step clone i s) ! k =
           (fst (card_subscriptions s ! k), snd (card_subscriptions s ! k) \<and> \<not> resolves k i)"
    by simp_all
  from 2 Cons.prems(2)
  have 3: "fst (card_subscriptions (card_step clone i s) ! k) = DeleteIssue_subscriber ident"
    by simp
  from Cons.IH [OF 1 3] 2 card_step_finalize_count [OF Cons.prems, of clone i]
  show ?case
    by (auto simp: card_run_Cons)
qed

lemma card_deliver_clears_pending:
  assumes "k < length (card_subscriptions s)"
    and "card_subscriptions s ! k = (DeleteIssue_subscriber ident, True)"
    and "terminal n"
  shows "issuesPendingDeletion (card_deliver k n s) ident = None"
  using assms by (cases n) (simp_all add: card_deliver_def card_method_defs)

lemma deleteIssue_effect:
  "card_subscriptions (deleteIssue ident ev s) =
     card_subscriptions s @ [(DeleteIssue_subscriber ident, True)]"
  "calls (deleteIssue ident ev s) =
     calls s @ [LoggingService_info
                  (lit ''IssueTablesComponent: Deleting Issue '' @ number_toString ident),
                Pending_marked ident, IssueService_deleteIssue ident, Event_stopPropagation ev]"
  "issuesPendingDeletion (deleteIssue ident ev s) = (issuesPendingDeletion s)(ident \<mapsto> True)"
  "localStore (deleteIssue ident ev s) = localStore s"
  "currentPhase (deleteIssue ident ev s) = currentPhase s"
  by (simp_all add: card_method_defs)

text \<open>
  C1: let \<open>deleteIssue(id)\<close> be invoked in any state, \<open>k\<close> being the number its subscription
  gets, and let anything happen afterwards (\<open>ins\<close>: other method calls, notifications
  for other subscriptions, values for this one) short of a resolution of this
  subscription. Then once its resolution \<open>n\<close> (an error, or the completion that follows
  success) is delivered, \<open>id\<close> is absent from \<open>issuesPendingDeletion\<close>; the callback of
  \<open>finalize\<close> has then run exactly once for this subscription, also after any further
  inputs \<open>ins'\<close> (a closed subscription receives nothing more), and it has not run
  before the resolution.
\<close>

theorem deleteIssue_pending_cleared_once:
  assumes "k = length (card_subscriptions s)"
    and "\<not> list_ex (resolves k) ins"
    and "terminal n"
  shows "issuesPendingDeletion
           (card_run clone (ins @ [Notify k n]) (deleteIssue ident ev s)) ident = None
       \<and> count_list (calls (card_run clone (ins @ Notify k n # ins') (deleteIssue ident ev s)))
           (Finalize_ran k) = count_list (calls s) (Finalize_ran k) + 1
       \<and> count_list (calls (card_run clone ins (deleteIssue ident ev s)))
           (Finalize_ran k) = count_list (calls s) (Finalize_ran k)"
proof -
  let ?t = "deleteIssue ident ev s"
  have k: "k < length (card_subscriptions ?t)"
    and sub: "fst (card_subscriptions ?t ! k) = DeleteIssue_subscriber ident"
    and op: "snd (card_subscriptions ?t ! k)"
    using assms(1) by (simp_all add: deleteIssue_effect)
  have c0: "count_list (calls ?t) (Finalize_ran k) = count_list (calls s) (Finalize_ran k)"
    by (simp add: deleteIssue_effect)
  from card_run_subscription [OF k, of clone ins] sub op assms(2)
  have "k < length (card_subscriptions (card_run clone ins ?t))"
    and "card_subscriptions (card_run clone ins ?t) ! k = (DeleteIssue_subscriber ident, True)"
    by (simp_all add: prod_eq_iff)
  then have a: "issuesPendingDeletion (card_deliver k n (card_run clone ins ?t)) ident = None"
    using assms(3) by (rule card_deliver_clears_pending)
  have r: "list_ex (resolves k) (ins @ Notify k n # ins')"
    using assms(3) by (simp add: list_ex_iff)
  from card_run_finalize_count [OF k sub, of clone "ins @ Notify k n # ins'"] op r c0
  have b: "count_list (calls (card_run clone (ins @ Notify k n # ins') ?t)) (Finalize_ran k) =
           count_list (calls s) (Finalize_ran k) + 1"
    by simp
  from card_run_finalize_count [OF k sub, of clone ins] assms(2) c0
  have c: "count_list (calls (card_run clone ins ?t)) (Finalize_ran k) =
           count_list (calls s) (Finalize_ran k)"
    by simp
  from a b c show ?thesis
    by (simp add: card_run_append card_run_Cons card_run_Nil)
qed


text \<open>
  An instance: issue 1 is being deleted; a delete of issue 2 starts and a value
  arrives; then the request for issue 1 fails, and a late completion is ignored.
\<close>

theorem deleteIssue_pending_cleared_once_witness:
  "0 = length (card_subscriptions (card_init None Map.empty))
   \<and> \<not> list_ex (resolves 0) [Call_deleteIssue 2 0, Notify 0 (Next (Issue_value sample))]
   \<and> terminal (Error TypeError)
   \<and> issuesPendingDeletion
       (card_run (\<lambda>i p. i)
          ([Call_deleteIssue 2 0, Notify 0 (Next (Issue_value sample))] @ [Notify 0 (Error TypeError)])
          (deleteIssue 1 0 (card_init None Map.empty))) 1 = None
   \<and> count_list (calls (card_run (\<lambda>i p. i)
          ([Call_deleteIssue 2 0, Notify 0 (Next (Issue_value sample))] @ Notify 0 (Error TypeError) # [Notify 0 Complete])
          (deleteIssue 1 0 (card_init None Map.empty)))) (Finalize_ran 0) = 1"
  using deleteIssue_pending_cleared_once
    [of 0 "card_init None Map.empty" "[Call_deleteIssue 2 0, Notify 0 (Next (Issue_value sample))]"
       "Error TypeError" "\<lambda>i p. i" 1 0 "[Notify 0 Complete]"]
  by (simp add: card_init_def)


lemma card_run_in_flight:
  assumes "k = length (card_subscriptions s)"
    and "card_subscriptions s' = card_subscriptions s @ [(sub, True)]"
    and "\<not> list_ex (resolves k) ins"
  shows "k < length (card_subscriptions (card_run clone ins s')) \<and>
         card_subscriptions (card_run clone ins s') ! k = (sub, True)"
proof -
  have k: "k < length (card_subscriptions s')"
    using assms(1,2) by simp
  from card_run_subscription [OF k, of clone ins] assms show ?thesis
    by (simp add: prod_eq_iff)
qed

lemma card_deliver_open:
  assumes "k < length (card_subscriptions s)"
    and "card_subscriptions s ! k = (sub, True)"
  shows "card_deliver k (Next v) s = card_next sub v s"
    and "card_deliver k (Error e) s = card_teardown k sub (card_close k (card_error sub e s))"
    and "card_deliver k Complete s = card_teardown k sub (card_close k s)"
  using assms by (simp_all add: card_deliver_def)

text \<open>
  C2: within \<open>deleteIssue(id)\<close>, in any state, what happens is in this order: the log
  entry, the assignment that marks \<open>id\<close> pending, the call of
  \<open>issueService.deleteIssue(id)\<close>, and \<open>event.stopPropagation()\<close>. The request is issued on
  a state \<open>s2\<close> in which \<open>id\<close> is marked, the marking is the last thing done and no
  request has been made yet. When the method returns, \<open>id\<close> is pending and the store is
  as it was. If then, after anything short of a resolution of this request (\<open>ins\<close>), the
  request fails with \<open>e\<close>: the store is left as it is, \<open>id\<close> is no longer pending, and
  \<open>e\<close> has been handed to \<open>errorHandlingService.handleError\<close>.
\<close>

theorem deleteIssue_marks_then_requests:
  assumes "k = length (card_subscriptions s)"
    and "\<not> list_ex (resolves k) ins"
    and "t = card_run clone ins (deleteIssue ident ev s)"
  shows "calls (deleteIssue ident ev s) =
           calls s @
           [LoggingService_info
              (lit ''IssueTablesComponent: Deleting Issue '' @ number_toString ident),
            Pending_marked ident, IssueService_deleteIssue ident, Event_stopPropagation ev]
       \<and> (\<exists>s2. issuesPendingDeletion s2 ident = Some True
            \<and> calls s2 =
                calls s @
                [LoggingService_info
                   (lit ''IssueTablesComponent: Deleting Issue '' @ number_toString ident),
                 Pending_marked ident]
            \<and> deleteIssue ident ev s =
                call (Event_stopPropagation ev)
                  (card_subscribe (DeleteIssue_subscriber ident)
                     (call (IssueService_deleteIssue ident) s2)))
       \<and> issuesPendingDeletion (deleteIssue ident ev s) ident = Some True
       \<and> localStore (deleteIssue ident ev s) = localStore s
       \<and> localStore (card_deliver k (Error e) t) = localStore t
       \<and> issuesPendingDeletion (card_deliver k (Error e) t) ident = None
       \<and> calls (card_deliver k (Error e) t) =
           calls t @ [ErrorHandlingService_handleError e None, Finalize_ran k]"
proof -
  let ?s1 = "call (LoggingService_info
                 (lit ''IssueTablesComponent: Deleting Issue '' @ number_toString ident)) s"
  let ?s2 = "call (Pending_marked ident)
               (?s1\<lparr>issuesPendingDeletion := (issuesPendingDeletion ?s1)(ident \<mapsto> True)\<rparr>)"
  have "issuesPendingDeletion ?s2 ident = Some True
        \<and> calls ?s2 =
            calls s @
            [LoggingService_info
               (lit ''IssueTablesComponent: Deleting Issue '' @ number_toString ident),
             Pending_marked ident]
        \<and> deleteIssue ident ev s =
            call (Event_stopPropagation ev)
              (card_subscribe (DeleteIssue_subscriber ident)
                 (call (IssueService_deleteIssue ident) ?s2))"
    by (simp add: deleteIssue_def Let_def call_def)
  then have 1: "\<exists>s2. issuesPendingDeletion s2 ident = Some True
            \<and> calls s2 =
                calls s @
                [LoggingService_info
                   (lit ''IssueTablesComponent: Deleting Issue '' @ number_toString ident),
                 Pending_marked ident]
            \<and> deleteIssue ident ev s =
                call (Event_stopPropagation ev)
                  (card_subscribe (DeleteIssue_subscriber ident)
                     (call (IssueService_deleteIssue ident) s2))"
    by blast
  from card_run_in_flight [OF assms(1) deleteIssue_effect(1) assms(2), where clone = clone] assms(3)
  have k: "k < length (card_subscriptions t)"
    and sub: "card_subscriptions t ! k = (DeleteIssue_subscriber ident, True)"
    by simp_all
  have 2: "localStore (card_deliver k (Error e) t) = localStore t
       \<and> issuesPendingDeletion (card_deliver k (Error e) t) ident = None
       \<and> calls (card_deliver k (Error e) t) =
           calls t @ [ErrorHandlingService_handleError e None, Finalize_ran k]"
    by (simp add: card_deliver_open [OF k sub] card_method_defs)
  from 1 2 show ?thesis
    by (simp add: deleteIssue_effect)
qed

lemma markAsResponded_effect:
  "card_subscriptions (markAsResponded clone i ev s) =
     card_subscriptions s @ [(MarkAsResponded_subscriber, True)]"
  "calls (markAsResponded clone i ev s) =
     calls s @ [LoggingService_info
                  (lit ''IssueTablesComponent: Marking Issue '' @ number_toString (issue_id i)
                     @ lit '' as Responded''),
                IssueService_updateIssue ((clone i (currentPhase s))\<lparr>status := Done\<rparr>),
                Event_stopPropagation ev]"
  "issuesPendingDeletion (markAsResponded clone i ev s) = issuesPendingDeletion s"
  "localStore (markAsResponded clone i ev s) = localStore s"
  by (simp_all add: card_method_defs)

lemma markAsPending_effect:
  "card_subscriptions (markAsPending clone i ev s) =
     card_subscriptions s @ [(MarkAsPending_subscriber, True)]"
  "calls (markAsPending clone i ev s) =
     calls s @ [LoggingService_info
                  (lit ''IssueTablesComponent: Marking Issue '' @ number_toString (issue_id i)
                     @ lit '' as Pending''),
                IssueService_updateIssue ((clone i (currentPhase s))\<lparr>status := Incomplete\<rparr>),
                Event_stopPropagation ev]"
  "issuesPendingDeletion (markAsPending clone i ev s) = issuesPendingDeletion s"
  "localStore (markAsPending clone i ev s) = localStore s"
  by (simp_all add: card_method_defs)


text \<open>
  C3: \<open>markAsResponded\<close> (\<open>st = Done\<close>) and \<open>markAsPending\<close> (\<open>st = Incomplete\<close>) send exactly
  one update, of the clone of the issue made for the current phase with its status set
  to \<open>st\<close>, and leave the store alone. Afterwards (\<open>ins\<close> being anything short of a
  resolution of this request) a value \<open>u\<close> from the gateway is what is written to the
  store, under its own identifier; an error leaves the store untouched and is handed
  to \<open>errorHandlingService.handleError\<close>; completion leaves the store untouched.
\<close>

theorem markAs_confirm_then_apply:
  assumes "k = length (card_subscriptions s)"
    and "\<not> list_ex (resolves k) ins"
    and "t = card_run clone ins (markAs st clone i ev s)"
  shows "[c \<leftarrow> calls (markAs st clone i ev s). \<exists>j. c = IssueService_updateIssue j] =
           [c \<leftarrow> calls s. \<exists>j. c = IssueService_updateIssue j] @
           [IssueService_updateIssue ((clone i (currentPhase s))\<lparr>status := st\<rparr>)]
       \<and> localStore (markAs st clone i ev s) = localStore s
       \<and> localStore (card_deliver k (Next (Issue_value u)) t) = (localStore t)(issue_id u \<mapsto> u)
       \<and> calls (card_deliver k (Next (Issue_value u)) t) =
           calls t @ [IssueService_updateLocalStore u]
       \<and> localStore (card_deliver k (Error e) t) = localStore t
       \<and> calls (card_deliver k (Error e) t) = calls t @ [ErrorHandlingService_handleError e None]
       \<and> localStore (card_deliver k Complete t) = localStore t"
proof (cases st)
  case Done
  from card_run_in_flight [OF assms(1) markAsResponded_effect(1) assms(2), where clone = clone]
    assms(3) Done
  have k: "k < length (card_subscriptions t)"
    and sub: "card_subscriptions t ! k = (MarkAsResponded_subscriber, True)"
    by (simp_all add: markAs_def)
  show ?thesis
    by (simp add: Done markAs_def markAsResponded_effect card_deliver_open [OF k sub]
        card_method_defs)
next
  case Incomplete
  from card_run_in_flight [OF assms(1) markAsPending_effect(1) assms(2), where clone = clone]
    assms(3) Incomplete
  have k: "k < length (card_subscriptions t)"
    and sub: "card_subscriptions t ! k = (MarkAsPending_subscriber, True)"
    by (simp_all add: markAs_def)
  show ?thesis
    by (simp add: Incomplete markAs_def markAsPending_effect card_deliver_open [OF k sub]
        card_method_defs)
qed


lemma card_next_DeleteIssue_pending:
  "issuesPendingDeletion (card_next (DeleteIssue_subscriber a) v s) = issuesPendingDeletion s"
  by (cases v) (simp_all add: card_method_defs)

lemma card_deliver_pending_frame:
  assumes "a \<noteq> b"
    and "k < length (card_subscriptions t)"
    and "fst (card_subscriptions t ! k) = DeleteIssue_subscriber a"
  shows "issuesPendingDeletion (card_deliver k n t) b = issuesPendingDeletion t b"
  using assms
  by (cases n) (simp_all add: card_deliver_def Let_def card_next_DeleteIssue_pending card_method_defs)

lemma card_run_notifications_pending_frame:
  "a \<noteq> b \<Longrightarrow> k < length (card_subscriptions t) \<Longrightarrow>
   fst (card_subscriptions t ! k) = DeleteIssue_subscriber a \<Longrightarrow>
   issuesPendingDeletion (card_run clone (map (Notify k) ns) t) b = issuesPendingDeletion t b"
proof (induction ns arbitrary: t)
  case Nil
  then show ?case by (simp add: card_run_Nil)
next
  case (Cons n ns)
  from card_deliver_subscription [OF Cons.prems(2), of k n] Cons.prems(3)
  have 1: "k < length (card_subscriptions (card_deliver k n t))"
    and 2: "fst (card_subscriptions (card_deliver k n t) ! k) = DeleteIssue_subscriber a"
    by simp_all
  from Cons.IH [OF Cons.prems(1) 1 2] card_deliver_pending_frame [OF Cons.prems, of n]
  show ?case
    by (simp add: card_run_Cons)
qed

text \<open>
  C8: for two distinct identifiers \<open>a\<close> and \<open>b\<close>, the entry of \<open>b\<close> in
  \<open>issuesPendingDeletion\<close> is the same before and after \<open>deleteIssue(a)\<close> marks \<open>a\<close>, before
  and after any notification for a delete subscription of \<open>a\<close> (in any state \<open>t\<close>, so
  whatever else is in flight), and so after \<open>deleteIssue(a)\<close> followed by any
  notifications \<open>ns\<close> for its subscription.
\<close>

theorem pending_entries_do_not_interfere:
  assumes "a \<noteq> b"
    and "k < length (card_subscriptions t)"
    and "fst (card_subscriptions t ! k) = DeleteIssue_subscriber a"
  shows "issuesPendingDeletion (deleteIssue a ev s) b = issuesPendingDeletion s b
       \<and> issuesPendingDeletion (card_deliver k n t) b = issuesPendingDeletion t b
       \<and> issuesPendingDeletion
           (card_run clone (map (Notify (length (card_subscriptions s))) ns) (deleteIssue a ev s)) b =
         issuesPendingDeletion s b"
proof -
  have "issuesPendingDeletion
           (card_run clone (map (Notify (length (card_subscriptions s))) ns) (deleteIssue a ev s)) b =
        issuesPendingDeletion (deleteIssue a ev s) b"
    by (rule card_run_notifications_pending_frame [OF assms(1)]) (simp_all add: deleteIssue_effect)
  with assms card_deliver_pending_frame [OF assms, of n] show ?thesis
    by (simp add: deleteIssue_effect)
qed

lemma openDeleteDialog_effect:
  "card_subscriptions (openDeleteDialog ident ev s) =
     card_subscriptions s @ [(DeleteDialog_subscriber ident ev, True)]"
  "calls (openDeleteDialog ident ev s) =
     calls s @ [DialogService_openUserConfirmationModal
                  deleteIssueModalMessages yesButtonModalMessage noButtonModalMessage]"
  "issuesPendingDeletion (openDeleteDialog ident ev s) = issuesPendingDeletion s"
  "localStore (openDeleteDialog ident ev s) = localStore s"
  by (simp_all add: card_method_defs)



subsection \<open>HeaderComponent: subscriptions, the clock and the timers\<close>

text \<open>The definitions of the header's methods and callbacks, to unfold together.\<close>

lemmas header_method_defs =
  reload_def reload_next_def reload_error_def routeToSelectedPhase_def logOut_def
  openLogOutDialog_def openLogOutDialog_afterClosed_def header_subscribe_def header_close_def
  setTimeout_def call_def Let_def

lemma run_timeouts_fields:
  "header_subscriptions (foldl (\<lambda>s p. run_timeout (snd p) s) s ps) = header_subscriptions s"
  "calls (foldl (\<lambda>s p. run_timeout (snd p) s) s ps) = calls s"
  "clock (foldl (\<lambda>s p. run_timeout (snd p) s) s ps) = clock s"
  "timeouts (foldl (\<lambda>s p. run_timeout (snd p) s) s ps) = timeouts s"
  "currentPhase (foldl (\<lambda>s p. run_timeout (snd p) s) s ps) = currentPhase s"
proof (induction ps arbitrary: s)
  case Nil
  {
    case 1 show ?case by simp
  next
    case 2 show ?case by simp
  next
    case 3 show ?case by simp
  next
    case 4 show ?case by simp
  next
    case 5 show ?case by simp
  }
next
  case (Cons p ps)
  {
    case 1 show ?case by (cases "snd p") (simp add: Cons.IH)
  next
    case 2 show ?case by (cases "snd p") (simp add: Cons.IH)
  next
    case 3 show ?case by (cases "snd p") (simp add: Cons.IH)
  next
    case 4 show ?case by (cases "snd p") (simp add: Cons.IH)
  next
    case 5 show ?case by (cases "snd p") (simp add: Cons.IH)
  }
qed

lemma run_timeouts_flag:
  "isReloadButtonDisabled (foldl (\<lambda>s p. run_timeout (snd p) s) s ps) =
     (ps = [] \<and> isReloadButtonDisabled s)"
proof (induction ps arbitrary: s rule: rev_induct)
  case Nil
  show ?case by simp
next
  case (snoc p ps)
  show ?case by (cases "snd p") simp
qed

lemma sort_key_Nil_iff: "(sort_key f xs = []) = (xs = [])"
proof -
  have "length (sort_key f xs) = length xs"
    by (rule length_sort)
  then show ?thesis
    by (metis length_0_conv)
qed

lemma advance_fields:
  "header_subscriptions (advance d s) = header_subscriptions s"
  "calls (advance d s) = calls s"
  "clock (advance d s) = clock s + d"
  "timeouts (advance d s) = filter (\<lambda>p. \<not> fst p \<le> clock s + d) (timeouts s)"
  "currentPhase (advance d s) = currentPhase s"
  "isReloadButtonDisabled (advance d s) =
     (filter (\<lambda>p. fst p \<le> clock s + d) (timeouts s) = [] \<and> isReloadButtonDisabled s)"
  by (simp_all add: advance_def Let_def run_timeouts_fields run_timeouts_flag sort_key_Nil_iff)


lemma call_fields:
  "calls (call c s) = calls s @ [c]"
  "currentPhase (call c s) = currentPhase s"
  by (simp_all add: call_def)

lemma call_header_fields:
  "header_subscriptions (call c s) = header_subscriptions s"
  "clock (call c s) = clock s"
  "timeouts (call c s) = timeouts s"
  "isReloadButtonDisabled (call c s) = isReloadButtonDisabled s"
  "loginId (call c s) = loginId s"
  by (simp_all add: call_def)

lemma header_next_fields:
  "header_subscriptions (header_next sub v s) = header_subscriptions s"
  "clock (header_next sub v s) = clock s"
  "timeouts (header_next sub v s) = timeouts s"
  "isReloadButtonDisabled (header_next sub v s) = isReloadButtonDisabled s"
  "currentPhase (header_next sub v s) = currentPhase s"
  by (cases sub; cases v; simp add: header_method_defs)+

lemma header_error_fields:
  "header_subscriptions (header_error sub e s) = header_subscriptions s"
  "clock (header_error sub e s) = clock s"
  "timeouts (header_error sub e s) = timeouts s"
  "isReloadButtonDisabled (header_error sub e s) = isReloadButtonDisabled s"
  "currentPhase (header_error sub e s) = currentPhase s"
  by (cases sub; simp add: header_method_defs)+

lemma header_close_fields:
  "header_subscriptions (header_close k s) =
     (header_subscriptions s)[k := (fst (header_subscriptions s ! k), False)]"
  "clock (header_close k s) = clock s"
  "timeouts (header_close k s) = timeouts s"
  "isReloadButtonDisabled (header_close k s) = isReloadButtonDisabled s"
  "currentPhase (header_close k s) = currentPhase s"
  "calls (header_close k s) = calls s"
  by (simp_all add: header_close_def)

lemma header_deliver_fields:
  "clock (header_deliver k n s) = clock s"
  "timeouts (header_deliver k n s) = timeouts s"
  "isReloadButtonDisabled (header_deliver k n s) = isReloadButtonDisabled s"
  "currentPhase (header_deliver k n s) = currentPhase s"
  by (cases n; simp add: header_deliver_def Let_def header_next_fields header_error_fields
      header_close_fields)+

lemma header_deliver_subscription:
  assumes "k < length (header_subscriptions s)"
  shows "k < length (header_subscriptions (header_deliver j n s)) \<and>
         header_subscriptions (header_deliver j n s) ! k =
           (fst (header_subscriptions s ! k),
            snd (header_subscriptions s ! k) \<and> \<not> (j = k \<and> terminal n))"
  using assms
  by (cases n)
    (auto simp: header_deliver_def Let_def header_next_fields header_error_fields
      header_close_fields nth_list_update prod_eq_iff)

lemma reload_fields:
  "header_subscriptions (reload s) = header_subscriptions s @ [(Reload_subscriber, True)]"
  "calls (reload s) = calls s @ [GithubEventService_reloadPage]"
  "clock (reload s) = clock s"
  "timeouts (reload s) = timeouts s @ [(clock s + 3000, Enable_reload_button)]"
  "isReloadButtonDisabled (reload s) = True"
  "currentPhase (reload s) = currentPhase s"
  "loginId (reload s) = loginId s"
  by (simp_all add: header_method_defs)

lemma routeToSelectedPhase_fields:
  "clock (snd (routeToSelectedPhase Phase getRepository openPhase s)) = clock s"
  "header_subscriptions (snd (routeToSelectedPhase Phase getRepository openPhase s)) =
     header_subscriptions s @
     (if currentPhase s \<noteq> Phase openPhase \<and> getRepository (Phase openPhase) \<noteq> []
      then [(Reload_subscriber, True)] else [])"
  "timeouts (snd (routeToSelectedPhase Phase getRepository openPhase s)) =
     timeouts s @
     (if currentPhase s \<noteq> Phase openPhase \<and> getRepository (Phase openPhase) \<noteq> []
      then [(clock s + 3000, Enable_reload_button)] else [])"
  "isReloadButtonDisabled (snd (routeToSelectedPhase Phase getRepository openPhase s)) =
     (currentPhase s \<noteq> Phase openPhase \<and> getRepository (Phase openPhase) \<noteq> []
      \<or> isReloadButtonDisabled s)"
  "calls (snd (routeToSelectedPhase Phase getRepository openPhase s)) =
     calls s @
     (if currentPhase s = Phase openPhase then []
      else case getRepository (Phase openPhase) of
             [] \<Rightarrow> []
           | r # rs \<Rightarrow>
               [GithubService_storePhaseDetails (owner r) (name r), GithubService_reset,
                IssueService_reset False, GithubEventService_reloadPage,
                Router_navigateByUrl (Phase openPhase)])"
  by (simp_all add: routeToSelectedPhase_def Let_def reload_fields call_fields
      call_header_fields split: list.split)

lemma header_step_subscription:
  assumes "k < length (header_subscriptions s)"
  shows "k < length (header_subscriptions (header_step Phase getRepository i s)) \<and>
         header_subscriptions (header_step Phase getRepository i s) ! k =
           (fst (header_subscriptions s ! k),
            snd (header_subscriptions s ! k) \<and> \<not> header_resolves k i)"
proof (cases i)
  case (Header_notify j n)
  with header_deliver_subscription [OF assms, of j n] show ?thesis
    by simp
next
  case (Call_routeToSelectedPhase openPhase)
  with assms show ?thesis
    by (simp add: routeToSelectedPhase_fields nth_append prod_eq_iff)
next
  case (Run_callback cb)
  with assms show ?thesis
    by (cases cb) (simp add: call_header_fields)
qed (use assms in \<open>simp_all add: reload_fields advance_fields openLogOutDialog_def
       header_subscribe_def call_header_fields nth_append prod_eq_iff\<close>)

lemma header_step_clock:
  "clock s \<le> clock (header_step Phase getRepository i s)"
proof (cases i)
  case (Call_routeToSelectedPhase openPhase)
  then show ?thesis
    by (simp add: routeToSelectedPhase_fields)
next
  case (Run_callback cb)
  then show ?thesis
    by (cases cb) (simp add: call_header_fields)
qed (simp_all add: reload_fields advance_fields header_deliver_fields openLogOutDialog_def
       header_subscribe_def call_header_fields)


lemma header_run_Nil: "header_run Phase getRepository [] s = s"
  by (simp add: header_run_def)

lemma header_run_Cons:
  "header_run Phase getRepository (i # ins) s =
     header_run Phase getRepository ins (header_step Phase getRepository i s)"
  by (simp add: header_run_def)

lemma header_run_subscription:
  "k < length (header_subscriptions s) \<Longrightarrow>
     k < length (header_subscriptions (header_run Phase getRepository ins s)) \<and>
     fst (header_subscriptions (header_run Phase getRepository ins s) ! k) =
       fst (header_subscriptions s ! k) \<and>
     snd (header_subscriptions (header_run Phase getRepository ins s) ! k) =
       (snd (header_subscriptions s ! k) \<and> \<not> list_ex (header_resolves k) ins)"
proof (induction ins arbitrary: s)
  case Nil
  then show ?case by (simp add: header_run_Nil)
next
  case (Cons i ins)
  from header_step_subscription [OF Cons.prems, of Phase getRepository i]
  have 1: "k < length (header_subscriptions (header_step Phase getRepository i s))"
    and 2: "header_subscriptions (header_step Phase getRepository i s) ! k =
           (fst (header_subscriptions s ! k),
            snd (header_subscriptions s ! k) \<and> \<not> header_resolves k i)"
    by simp_all
  from Cons.IH [OF 1] 2 show ?case
    by (auto simp: header_run_Cons)
qed

lemma header_run_in_flight:
  assumes "k = length (header_subscriptions s)"
    and "header_subscriptions s' = header_subscriptions s @ [(sub, True)]"
    and "\<not> list_ex (header_resolves k) ins"
  shows "k < length (header_subscriptions (header_run Phase getRepository ins s')) \<and>
         header_subscriptions (header_run Phase getRepository ins s') ! k = (sub, True)"
proof -
  have k: "k < length (header_subscriptions s')"
    using assms(1,2) by simp
  from header_run_subscription [OF k, of Phase getRepository ins] assms show ?thesis
    by (simp add: prod_eq_iff)
qed

lemma header_deliver_open:
  assumes "k < length (header_subscriptions s)"
    and "header_subscriptions s ! k = (sub, True)"
  shows "header_deliver k (Next v) s = header_next sub v s"
    and "header_deliver k (Error e) s = header_close k (header_error sub e s)"
    and "header_deliver k Complete s = header_close k s"
  using assms by (simp_all add: header_deliver_def)

lemma header_run_clock: "clock s \<le> clock (header_run Phase getRepository ins s)"
proof (induction ins arbitrary: s)
  case Nil
  show ?case by (simp add: header_run_Nil)
next
  case (Cons i ins)
  from header_step_clock [of s Phase getRepository i]
    Cons.IH [of "header_step Phase getRepository i s"]
  show ?case
    by (simp add: header_run_Cons)
qed

lemma header_step_timeouts:
  "timeouts (header_step Phase getRepository i s) =
     filter (\<lambda>p. \<not> fst p \<le> clock (header_step Phase getRepository i s)) (timeouts s)
   \<or> (\<exists>more. timeouts (header_step Phase getRepository i s) = timeouts s @ more \<and>
         list_all (\<lambda>p. fst p = clock s + 3000) more)"
proof (cases i)
  case (Run_callback cb)
  then show ?thesis
    by (cases cb) (simp add: call_header_fields)
qed (simp_all add: reload_fields advance_fields header_deliver_fields openLogOutDialog_def
       header_subscribe_def call_header_fields routeToSelectedPhase_fields)

lemma header_step_keeps_timeout:
  assumes "p \<in> set (timeouts s)"
    and "clock (header_step Phase getRepository i s) < fst p"
  shows "p \<in> set (timeouts (header_step Phase getRepository i s))"
  using header_step_timeouts [of Phase getRepository i s] assms
  by auto

lemma header_run_keeps_timeout:
  "p \<in> set (timeouts s) \<Longrightarrow> clock (header_run Phase getRepository ins s) < fst p \<Longrightarrow>
   p \<in> set (timeouts (header_run Phase getRepository ins s))"
proof (induction ins arbitrary: s)
  case Nil
  then show ?case by (simp add: header_run_Nil)
next
  case (Cons i ins)
  let ?s' = "header_step Phase getRepository i s"
  from Cons.prems(2) header_run_clock [of ?s' Phase getRepository ins]
  have "clock ?s' < fst p"
    by (simp add: header_run_Cons)
  with Cons.prems(1) have "p \<in> set (timeouts ?s')"
    by (rule header_step_keeps_timeout)
  with Cons.IH [of ?s'] Cons.prems(2) show ?case
    by (simp add: header_run_Cons)
qed

text \<open>
  C6: let \<open>reload()\<close> be invoked in any state \<open>s\<close>, and let anything happen afterwards
  (\<open>ins\<close>: the refresh succeeding or failing, the retry, further calls, time passing)
  while fewer than 3000 ms have passed. The callback scheduled by this invocation is
  then still pending, and as soon as time reaches 3000 ms after the invocation the
  button is enabled again and the callback is gone.
\<close>

theorem reload_button_enabled_again:
  assumes "t = header_run Phase getRepository ins (reload s)"
    and "clock t < clock s + 3000"
    and "clock s + 3000 \<le> clock t + d"
  shows "(clock s + 3000, Enable_reload_button) \<in> set (timeouts t)
       \<and> \<not> isReloadButtonDisabled (advance d t)
       \<and> (clock s + 3000, Enable_reload_button) \<notin> set (timeouts (advance d t))"
proof -
  have "(clock s + 3000, Enable_reload_button) \<in> set (timeouts (reload s))"
    by (simp add: reload_fields)
  then have m: "(clock s + 3000, Enable_reload_button) \<in> set (timeouts t)"
    unfolding assms(1) using assms(1,2) by (intro header_run_keeps_timeout) simp_all
  with assms(3)
  have "(clock s + 3000, Enable_reload_button)
          \<in> set (filter (\<lambda>p. fst p \<le> clock t + d) (timeouts t))"
    by simp
  then have "filter (\<lambda>p. fst p \<le> clock t + d) (timeouts t) \<noteq> []"
    by (metis empty_iff empty_set)
  with m assms(3) show ?thesis
    by (simp add: advance_fields)
qed


lemma header_step_flag:
  "isReloadButtonDisabled (header_step Phase getRepository i s) =
     (case i of
        Call_reload \<Rightarrow> True
      | Call_routeToSelectedPhase openPhase \<Rightarrow>
          currentPhase s \<noteq> Phase openPhase \<and> getRepository (Phase openPhase) \<noteq> []
          \<or> isReloadButtonDisabled s
      | Advance d \<Rightarrow>
          filter (\<lambda>p. fst p \<le> clock s + d) (timeouts s) = [] \<and> isReloadButtonDisabled s
      | _ \<Rightarrow> isReloadButtonDisabled s)"
proof (cases i)
  case (Run_callback cb)
  then show ?thesis
    by (cases cb) (simp add: call_header_fields)
qed (simp_all add: reload_fields advance_fields header_deliver_fields openLogOutDialog_def
       header_subscribe_def call_header_fields routeToSelectedPhase_fields)

lemma header_step_cooling:
  assumes "cooling T s"
    and "clock (header_step Phase getRepository i s) < T"
  shows "cooling T (header_step Phase getRepository i s)"
proof -
  let ?s' = "header_step Phase getRepository i s"
  from assms(1) have f: "isReloadButtonDisabled s"
    and ts: "list_all (\<lambda>p. T \<le> fst p) (timeouts s)"
    and c: "T \<le> clock s + 3000"
    by (simp_all add: cooling_def)
  from c header_step_clock [of s Phase getRepository i] have c': "T \<le> clock ?s' + 3000"
    by simp
  from header_step_timeouts [of Phase getRepository i s] ts c
  have ts': "list_all (\<lambda>p. T \<le> fst p) (timeouts ?s')"
    by (fastforce simp: list_all_iff)
  have "isReloadButtonDisabled ?s'"
  proof (cases i)
    case (Advance d)
    with assms(2) have "clock s + d < T"
      by (simp add: advance_fields)
    with ts have "filter (\<lambda>p. fst p \<le> clock s + d) (timeouts s) = []"
      by (auto simp: list_all_iff filter_empty_conv)
    with f Advance show ?thesis
      by (simp add: advance_fields)
  qed (use f header_step_flag [of Phase getRepository i s] in simp_all)
  with ts' c' show ?thesis
    by (simp add: cooling_def)
qed

lemma header_run_cooling:
  "cooling T s \<Longrightarrow> clock (header_run Phase getRepository ins s) < T \<Longrightarrow>
   cooling T (header_run Phase getRepository ins s)"
proof (induction ins arbitrary: s)
  case Nil
  then show ?case by (simp add: header_run_Nil)
next
  case (Cons i ins)
  let ?s' = "header_step Phase getRepository i s"
  from Cons.prems(2) header_run_clock [of ?s' Phase getRepository ins]
  have "clock ?s' < T"
    by (simp add: header_run_Cons)
  with Cons.prems(1) have "cooling T ?s'"
    by (rule header_step_cooling)
  with Cons.IH [of ?s'] Cons.prems(2) show ?case
    by (simp add: header_run_Cons)
qed

text \<open>
  C4, as the code has it: after a \<open>reload()\<close> made with no timer pending, the flag
  \<open>isReloadButtonDisabled\<close> stays set, whatever happens (\<open>ins\<close>), until 3000 ms have
  passed; \<open>reload()\<close> itself does not read the flag, and a call of it in that time
  starts one more refresh request, which is then in flight beside the first.
\<close>

theorem reload_is_not_guarded:
  assumes "timeouts s = []"
    and "t = header_run Phase getRepository ins (reload s)"
    and "clock t < clock s + 3000"
  shows "isReloadButtonDisabled t
       \<and> calls (reload t) = calls t @ [GithubEventService_reloadPage]
       \<and> header_subscriptions (reload t) = header_subscriptions t @ [(Reload_subscriber, True)]"
proof -
  have "cooling (clock s + 3000) (reload s)"
    using assms(1) by (simp add: cooling_def reload_fields)
  with assms(2,3) have "cooling (clock s + 3000) t"
    by (simp add: header_run_cooling)
  then show ?thesis
    by (simp add: cooling_def reload_fields)
qed

text \<open>
  C4 as stated fails: right after a first \<open>reload()\<close> (button disabled, no time passed,
  the refresh in flight) a second \<open>reload()\<close> is not without effect. It calls
  \<open>reloadPage\<close> again and a second subscription is open.
\<close>

theorem reload_twice_starts_two_refreshes:
  "isReloadButtonDisabled (reload (header_init None []))
   \<and> clock (reload (header_init None [])) < 3000
   \<and> calls (reload (header_init None [])) = [GithubEventService_reloadPage]
   \<and> calls (reload (reload (header_init None []))) =
       [GithubEventService_reloadPage, GithubEventService_reloadPage]
   \<and> header_subscriptions (reload (reload (header_init None []))) =
       [(Reload_subscriber, True), (Reload_subscriber, True)]
   \<and> reload (reload (header_init None [])) \<noteq> reload (header_init None [])"
proof -
  have "calls (reload (reload (header_init None []))) \<noteq> calls (reload (header_init None []))"
    by (simp add: reload_fields header_init_def)
  then have "reload (reload (header_init None [])) \<noteq> reload (header_init None [])"
    by auto
  then show ?thesis
    by (simp add: reload_fields header_init_def)
qed

text \<open>
  C7: when the refresh started by \<open>reload()\<close> fails with \<open>e\<close> (after anything short of
  a resolution of this refresh), the one call made is
  \<open>errorHandlingService.handleError(e, retry)\<close>, and running \<open>retry\<close>, in any state \<open>u\<close>,
  makes exactly one call, of the same \<open>githubEventService.reloadPage\<close> that \<open>reload()\<close>
  called.
\<close>

theorem reload_failure_is_surfaced_with_retry:
  assumes "k = length (header_subscriptions s)"
    and "\<not> list_ex (header_resolves k) ins"
    and "t = header_run Phase getRepository ins (reload s)"
  shows "calls (header_deliver k (Error e) t) =
           calls t @ [ErrorHandlingService_handleError e (Some Retry_reloadPage)]
       \<and> calls (run_callback Retry_reloadPage u) = calls u @ [GithubEventService_reloadPage]
       \<and> GithubEventService_reloadPage \<in> set (calls (reload s))"
proof -
  from header_run_in_flight [OF assms(1) reload_fields(1) assms(2), of Phase getRepository]
    assms(3)
  have k: "k < length (header_subscriptions t)"
    and sub: "header_subscriptions t ! k = (Reload_subscriber, True)"
    by simp_all
  show ?thesis
    by (simp add: header_deliver_open [OF k sub] header_close_fields reload_error_def
        call_fields reload_fields)
qed



lemma openLogOutDialog_fields:
  "header_subscriptions (openLogOutDialog s) =
     header_subscriptions s @ [(LogOutDialog_subscriber, True)]"
  "calls (openLogOutDialog s) =
     calls s @ [DialogService_openUserConfirmationModal
                  logOutDialogMessages yesButtonDialogMessage noButtonDialogMessage]"
  by (simp_all add: header_method_defs)

text \<open>
  C9: \<open>openDeleteDialog\<close> and \<open>openLogOutDialog\<close> open the dialog and do nothing else.
  When the dialog closes with \<open>res\<close> (after anything short of a resolution of its
  subscription), \<open>deleteIssue(id, event)\<close>, respectively \<open>logOut()\<close>, runs if \<open>res\<close> is \<open>true\<close>,
  and otherwise (\<open>false\<close>, or \<open>undefined\<close> for a dismissed dialog) the state is unchanged;
  the delete request, respectively \<open>auth.logOut()\<close>, is among the calls made exactly when
  \<open>res\<close> is \<open>true\<close>. An error or the completion of the dialog's observable makes no call.
\<close>

theorem destructive_actions_need_confirmation:
  assumes "k = length (card_subscriptions s)"
    and "\<not> list_ex (resolves k) ins"
    and "t = card_run clone ins (openDeleteDialog ident ev s)"
    and "j = length (header_subscriptions h)"
    and "\<not> list_ex (header_resolves j) hins"
    and "u = header_run Phase getRepository hins (openLogOutDialog h)"
  shows "IssueService_deleteIssue ident \<notin> set (drop (length (calls s)) (calls (openDeleteDialog ident ev s)))
       \<and> card_deliver k (Next (Dialog_result res)) t =
           (if res = Some True
            then deleteIssue ident ev
                   (call (LoggingService_info (lit ''Deleting issue '' @ number_toString ident)) t)
            else t)
       \<and> (IssueService_deleteIssue ident
             \<in> set (drop (length (calls t)) (calls (card_deliver k (Next (Dialog_result res)) t))))
           = (res = Some True)
       \<and> calls (card_deliver k (Error e) t) = calls t
       \<and> calls (card_deliver k Complete t) = calls t
       \<and> AuthService_logOut \<notin> set (drop (length (calls h)) (calls (openLogOutDialog h)))
       \<and> header_deliver j (Next (Dialog_result res)) u =
           (if res = Some True
            then logOut (call (LoggingService_info (lit ''Logging out from '' @ loginId u)) u)
            else u)
       \<and> (AuthService_logOut
             \<in> set (drop (length (calls u)) (calls (header_deliver j (Next (Dialog_result res)) u))))
           = (res = Some True)
       \<and> calls (header_deliver j (Error e) u) = calls u
       \<and> calls (header_deliver j Complete u) = calls u"
proof -
  from card_run_in_flight [OF assms(1) openDeleteDialog_effect(1) assms(2), where clone = clone]
    assms(3)
  have k: "k < length (card_subscriptions t)"
    and sub: "card_subscriptions t ! k = (DeleteDialog_subscriber ident ev, True)"
    by simp_all
  from header_run_in_flight [OF assms(4) openLogOutDialog_fields(1) assms(5), of Phase getRepository]
    assms(6)
  have j: "j < length (header_subscriptions u)"
    and hsub: "header_subscriptions u ! j = (LogOutDialog_subscriber, True)"
    by simp_all
  have 1: "card_deliver k (Next (Dialog_result res)) t =
           (if res = Some True
            then deleteIssue ident ev
                   (call (LoggingService_info (lit ''Deleting issue '' @ number_toString ident)) t)
            else t)"
    by (simp add: card_deliver_open [OF k sub] openDeleteDialog_afterClosed_def)
  have 2: "header_deliver j (Next (Dialog_result res)) u =
           (if res = Some True
            then logOut (call (LoggingService_info (lit ''Logging out from '' @ loginId u)) u)
            else u)"
    by (simp add: header_deliver_open [OF j hsub] openLogOutDialog_afterClosed_def)
  have 3: "calls (card_deliver k (Error e) t) = calls t"
    "calls (card_deliver k Complete t) = calls t"
    by (simp_all add: card_deliver_open [OF k sub] card_close_calls)
  have 4: "calls (header_deliver j (Error e) u) = calls u"
    "calls (header_deliver j Complete u) = calls u"
    by (simp_all add: header_deliver_open [OF j hsub] header_close_fields)
  show ?thesis
    unfolding 1 2 3 4
    by (simp add: openDeleteDialog_effect openLogOutDialog_fields deleteIssue_effect call_fields
        logOut_def)
qed


text \<open>What the examples unfold.\<close>

lemmas card_eval =
  card_init_def card_run_def card_deliver_def markAs_def sample_def card_method_defs

lemmas header_eval =
  header_init_def header_run_def header_deliver_def advance_def header_method_defs

text \<open>
  An instance (scenario B): issue 1 is in the store and its deletion fails while a
  deletion of issue 2 is in flight.
\<close>

theorem deleteIssue_marks_then_requests_witness:
  "0 = length (card_subscriptions (card_init None [1 \<mapsto> sample]))
   \<and> \<not> list_ex (resolves 0) [Call_deleteIssue 2 0]
   \<and> issuesPendingDeletion (deleteIssue 1 0 (card_init None [1 \<mapsto> sample])) 1 = Some True
   \<and> localStore
        (card_deliver 0 (Error (RemoteError (lit ''500'')))
           (card_run (\<lambda>i p. i) [Call_deleteIssue 2 0]
              (deleteIssue 1 0 (card_init None [1 \<mapsto> sample])))) 1 = Some sample
   \<and> issuesPendingDeletion
        (card_deliver 0 (Error (RemoteError (lit ''500'')))
           (card_run (\<lambda>i p. i) [Call_deleteIssue 2 0]
              (deleteIssue 1 0 (card_init None [1 \<mapsto> sample])))) 1 = None
   \<and> ErrorHandlingService_handleError (RemoteError (lit ''500'')) None
        \<in> set (calls
           (card_deliver 0 (Error (RemoteError (lit ''500'')))
              (card_run (\<lambda>i p. i) [Call_deleteIssue 2 0]
                 (deleteIssue 1 0 (card_init None [1 \<mapsto> sample])))))"
  using deleteIssue_marks_then_requests
    [of 0 "card_init None [1 \<mapsto> sample]" "[Call_deleteIssue 2 0]"
       "card_run (\<lambda>i p. i) [Call_deleteIssue 2 0]
          (deleteIssue 1 0 (card_init None [1 \<mapsto> sample]))"
       "\<lambda>i p. i" 1 0 "RemoteError (lit ''500'')"]
  by (simp add: card_init_def card_run_def deleteIssue_effect)

text \<open>
  An instance (scenario A): the store holds issue 1 with status \<open>Incomplete\<close>; the
  gateway answers \<open>markAsResponded\<close> with the issue at status \<open>Done\<close>, which is then in the
  store; had it failed, the store would hold the issue as before.
\<close>

theorem markAs_confirm_then_apply_witness:
  "0 = length (card_subscriptions (card_init None [1 \<mapsto> sample]))
   \<and> \<not> list_ex (resolves 0) []
   \<and> status sample = Incomplete
   \<and> localStore
        (card_deliver 0 (Next (Issue_value (sample\<lparr>status := Done\<rparr>)))
           (card_run (\<lambda>i p. i) []
              (markAs Done (\<lambda>i p. i) sample 0 (card_init None [1 \<mapsto> sample])))) 1
       = Some (sample\<lparr>status := Done\<rparr>)
   \<and> localStore
        (card_deliver 0 (Error TypeError)
           (card_run (\<lambda>i p. i) []
              (markAs Done (\<lambda>i p. i) sample 0 (card_init None [1 \<mapsto> sample])))) 1
       = Some sample"
  using markAs_confirm_then_apply
    [of 0 "card_init None [1 \<mapsto> sample]" "[]"
       "card_run (\<lambda>i p. i) []
          (markAs Done (\<lambda>i p. i) sample 0 (card_init None [1 \<mapsto> sample]))"
       "\<lambda>i p. i" Done sample 0 "sample\<lparr>status := Done\<rparr>" TypeError]
  by (simp add: card_init_def card_run_def markAs_def markAsResponded_effect sample_def)

text \<open>
  An instance: issues 2 and 1 are being deleted; the deletion of 1 completes, and 2
  is still pending.
\<close>

theorem pending_entries_do_not_interfere_witness:
  "(1::nat) \<noteq> 2
   \<and> 1 < length (card_subscriptions (deleteIssue 1 0 (deleteIssue 2 0 (card_init None Map.empty))))
   \<and> fst (card_subscriptions (deleteIssue 1 0 (deleteIssue 2 0 (card_init None Map.empty))) ! 1)
       = DeleteIssue_subscriber 1
   \<and> issuesPendingDeletion
        (card_deliver 1 Complete (deleteIssue 1 0 (deleteIssue 2 0 (card_init None Map.empty)))) 2
       = Some True
   \<and> issuesPendingDeletion
        (card_deliver 1 Complete (deleteIssue 1 0 (deleteIssue 2 0 (card_init None Map.empty)))) 1
       = None"
  using pending_entries_do_not_interfere
    [of 1 2 1 "deleteIssue 1 0 (deleteIssue 2 0 (card_init None Map.empty))" 0
       "deleteIssue 2 0 (card_init None Map.empty)" Complete "\<lambda>i p. i" "[]"]
  by (simp add: card_eval)


text \<open>
  An instance: 2999 ms after a reload the button is still disabled, and a second
  \<open>reload()\<close> then makes a second request.
\<close>

theorem reload_is_not_guarded_witness:
  "timeouts (header_init None []) = []
   \<and> clock (header_run Some (\<lambda>p. []) [Header_notify 0 (Next Reload_value), Advance 2999]
              (reload (header_init None []))) < clock (header_init None []) + 3000
   \<and> isReloadButtonDisabled
        (header_run Some (\<lambda>p. []) [Header_notify 0 (Next Reload_value), Advance 2999]
           (reload (header_init None [])))
   \<and> calls (reload
        (header_run Some (\<lambda>p. []) [Header_notify 0 (Next Reload_value), Advance 2999]
           (reload (header_init None [])))) =
       [GithubEventService_reloadPage, GithubEventService_reloadPage]"
  using reload_is_not_guarded
    [of "header_init None []"
       "header_run Some (\<lambda>p. []) [Header_notify 0 (Next Reload_value), Advance 2999]
          (reload (header_init None []))"
       Some "\<lambda>p. []" "[Header_notify 0 (Next Reload_value), Advance 2999]"]
  by (simp add: header_init_def header_run_def header_deliver_fields advance_fields
      reload_fields header_deliver_def reload_next_def)

text \<open>
  An instance: the refresh fails, the retry closure is run, 1000 ms pass with the
  button still disabled; 2000 ms later it is enabled.
\<close>

theorem reload_button_enabled_again_witness:
  "clock (header_run Some (\<lambda>p. [])
            [Header_notify 0 (Error (RemoteError (lit ''offline''))),
             Run_callback Retry_reloadPage, Advance 1000]
            (reload (header_init None []))) < clock (header_init None []) + 3000
   \<and> clock (header_init None []) + 3000
       \<le> clock (header_run Some (\<lambda>p. [])
            [Header_notify 0 (Error (RemoteError (lit ''offline''))),
             Run_callback Retry_reloadPage, Advance 1000]
            (reload (header_init None []))) + 2000
   \<and> isReloadButtonDisabled
        (header_run Some (\<lambda>p. [])
            [Header_notify 0 (Error (RemoteError (lit ''offline''))),
             Run_callback Retry_reloadPage, Advance 1000]
            (reload (header_init None [])))
   \<and> \<not> isReloadButtonDisabled
        (advance 2000
           (header_run Some (\<lambda>p. [])
              [Header_notify 0 (Error (RemoteError (lit ''offline''))),
               Run_callback Retry_reloadPage, Advance 1000]
              (reload (header_init None []))))"
  using reload_button_enabled_again
    [of "header_run Some (\<lambda>p. [])
            [Header_notify 0 (Error (RemoteError (lit ''offline''))),
             Run_callback Retry_reloadPage, Advance 1000]
            (reload (header_init None []))"
       Some "\<lambda>p. []"
       "[Header_notify 0 (Error (RemoteError (lit ''offline''))),
         Run_callback Retry_reloadPage, Advance 1000]"
       "header_init None []" 2000]
  by (simp add: header_init_def header_run_def header_deliver_fields advance_fields
      reload_fields call_header_fields)

text \<open>
  An instance: the refresh fails 10 ms after the reload.
\<close>

theorem reload_failure_is_surfaced_with_retry_witness:
  "0 = length (header_subscriptions (header_init None []))
   \<and> \<not> list_ex (header_resolves 0) [Advance 10]
   \<and> calls (header_deliver 0 (Error (RemoteError (lit ''offline'')))
        (header_run Some (\<lambda>p. []) [Advance 10] (reload (header_init None [])))) =
       [GithubEventService_reloadPage,
        ErrorHandlingService_handleError (RemoteError (lit ''offline'')) (Some Retry_reloadPage)]
   \<and> calls (run_callback Retry_reloadPage (header_init None [])) = [GithubEventService_reloadPage]"
  using reload_failure_is_surfaced_with_retry
    [of 0 "header_init None []" "[Advance 10]"
       "header_run Some (\<lambda>p. []) [Advance 10] (reload (header_init None []))"
       Some "\<lambda>p. []" "RemoteError (lit ''offline'')" "header_init None []"]
  by (simp add: header_init_def header_run_def advance_fields reload_fields)


text \<open>
  An instance: both dialogs answered with yes, the delete dialog with no, the logout
  dialog dismissed.
\<close>

theorem destructive_actions_need_confirmation_witness:
  "0 = length (card_subscriptions (card_init None Map.empty))
   \<and> \<not> list_ex (resolves 0) []
   \<and> 0 = length (header_subscriptions (header_init None (lit ''user'')))
   \<and> \<not> list_ex (header_resolves 0) []
   \<and> IssueService_deleteIssue 1
        \<in> set (calls (card_deliver 0 (Next (Dialog_result (Some True)))
             (card_run (\<lambda>i p. i) [] (openDeleteDialog 1 0 (card_init None Map.empty)))))
   \<and> card_deliver 0 (Next (Dialog_result (Some False)))
        (card_run (\<lambda>i p. i) [] (openDeleteDialog 1 0 (card_init None Map.empty))) =
       card_run (\<lambda>i p. i) [] (openDeleteDialog 1 0 (card_init None Map.empty))
   \<and> AuthService_logOut
        \<in> set (calls (header_deliver 0 (Next (Dialog_result (Some True)))
             (header_run Some (\<lambda>p. []) [] (openLogOutDialog (header_init None (lit ''user''))))))
   \<and> header_deliver 0 (Next (Dialog_result None))
        (header_run Some (\<lambda>p. []) [] (openLogOutDialog (header_init None (lit ''user'')))) =
       header_run Some (\<lambda>p. []) [] (openLogOutDialog (header_init None (lit ''user'')))"
  using destructive_actions_need_confirmation
    [of 0 "card_init None Map.empty" "[]"
       "card_run (\<lambda>i p. i) [] (openDeleteDialog 1 0 (card_init None Map.empty))" "\<lambda>i p. i" 1 0
       0 "header_init None (lit ''user'')" "[]"
       "header_run Some (\<lambda>p. []) [] (openLogOutDialog (header_init None (lit ''user'')))"
       Some "\<lambda>p. []" "Some True"]
    destructive_actions_need_confirmation
    [of 0 "card_init None Map.empty" "[]"
       "card_run (\<lambda>i p. i) [] (openDeleteDialog 1 0 (card_init None Map.empty))" "\<lambda>i p. i" 1 0
       0 "header_init None (lit ''user'')" "[]"
       "header_run Some (\<lambda>p. []) [] (openLogOutDialog (header_init None (lit ''user'')))"
       Some "\<lambda>p. []" "Some False"]
    destructive_actions_need_confirmation
    [of 0 "card_init None Map.empty" "[]"
       "card_run (\<lambda>i p. i) [] (openDeleteDialog 1 0 (card_init None Map.empty))" "\<lambda>i p. i" 1 0
       0 "header_init None (lit ''user'')" "[]"
       "header_run Some (\<lambda>p. []) [] (openLogOutDialog (header_init None (lit ''user'')))"
       Some "\<lambda>p. []" "None"]
  by (simp add: card_init_def header_init_def card_run_def header_run_def
      openDeleteDialog_effect openLogOutDialog_fields deleteIssue_effect call_fields logOut_def)

end
